theory Spec2Isabelle
  imports Main "HOL-Library.Word"
begin

section \<open>Strings and bytes\<close>

text \<open>
  A Python \<open>str\<close> is a sequence of Unicode code points, so it is modelled as a list of
  code points; \<open>bytes\<close> is a list of 8-bit words. \<open>str\<close> turns a literal into its code
  points.
\<close>

type_synonym pystr = "nat list"

type_synonym bytes = "8 word list"

definition str :: "string \<Rightarrow> pystr" where
  "str s = map of_char s"

text \<open>The line feed of \<open>"\n"\<close> and the separator of POSIX paths.\<close>

definition newline :: nat where
  "newline = 10"

definition sep :: nat where
  "sep = 47"

text \<open>
  \<open>str.isspace\<close> on one code point, as \<open>str.strip()\<close> without arguments uses it: the ASCII
  white space (tab to carriage return, the four separators 28 to 31, space) and the
  Unicode white space (NEL, no-break space, Ogham space, the spaces U+2000 to U+200A,
  line and paragraph separator, narrow no-break space, medium mathematical space,
  ideographic space).
\<close>

definition py_isspace :: "nat \<Rightarrow> bool" where
  "py_isspace c \<longleftrightarrow>
     (9 \<le> c \<and> c \<le> 13) \<or> (28 \<le> c \<and> c \<le> 32) \<or> c = 133 \<or> c = 160 \<or> c = 5760 \<or>
     (8192 \<le> c \<and> c \<le> 8202) \<or> c = 8232 \<or> c = 8233 \<or> c = 8239 \<or> c = 8287 \<or> c = 12288"

text \<open>\<open>s.strip()\<close> and \<open>s.strip(chars)\<close>: drop the matching code points at both ends.\<close>

definition strip_where :: "(nat \<Rightarrow> bool) \<Rightarrow> pystr \<Rightarrow> pystr" where
  "strip_where P s = rev (dropWhile P (rev (dropWhile P s)))"

definition py_strip :: "pystr \<Rightarrow> pystr" where
  "py_strip s = strip_where py_isspace s"

definition py_strip_chars :: "pystr \<Rightarrow> pystr \<Rightarrow> pystr" where
  "py_strip_chars chars s = strip_where (\<lambda>c. c \<in> set chars) s"

text \<open>
  \<open>s.split(c)\<close> for a one-character separator: every occurrence of the separator ends a
  piece, so the result is never empty and \<open>"".split("\n")\<close> is \<open>[""]\<close>.
\<close>

fun py_split :: "nat \<Rightarrow> pystr \<Rightarrow> pystr list" where
  "py_split c [] = [[]]"
| "py_split c (x # xs) =
     (if x = c then [] # py_split c xs
      else (case py_split c xs of
              [] \<Rightarrow> [[x]]
            | piece # pieces \<Rightarrow> (x # piece) # pieces))"

section \<open>The disposition enumeration\<close>

text \<open>
  \<open>AttachmentDisposition\<close> is a \<open>str\<close> enumeration: each member is the string that is its
  value, and the command line delivers plain strings, so the three members are the
  three strings.
\<close>

definition INLINE :: pystr where
  "INLINE = str ''inline''"

definition ATTACHMENT :: pystr where
  "ATTACHMENT = str ''attachment''"

definition EMPTY :: pystr where
  "EMPTY = []"

section \<open>Reading the command line values\<close>

text \<open>\<open>convert_to_list\<close>: split at the line feeds, strip every piece, drop the empty ones.\<close>

definition is_not_empty :: "pystr \<Rightarrow> bool" where
  "is_not_empty s \<longleftrightarrow> s \<noteq> []"

definition extract_str :: "pystr \<Rightarrow> pystr" where
  "extract_str s = py_strip_chars [newline] (py_strip s)"

definition convert_to_list :: "pystr \<Rightarrow> pystr list" where
  "convert_to_list arg = filter is_not_empty (map extract_str (py_split newline arg))"

text \<open>
  The two conditionals of the main block that follow the directory listings: a value
  list of exactly one element that contains a line feed is replaced by
  \<open>convert_to_list\<close> of that element, any other list is kept. The main block applies the
  same test to \<open>args.attachments\<close> (which is \<open>None\<close> when the option is absent) and to
  \<open>args.attachments_disposition\<close>.
\<close>

definition split_single_value :: "pystr list \<Rightarrow> pystr list" where
  "split_single_value xs =
     (if xs \<noteq> [] \<and> length xs = 1 \<and> newline \<in> set (xs ! 0) then convert_to_list (xs ! 0)
      else xs)"

text \<open>\<open>is_attachment_requested\<close>: \<open>bool(attachments) and attachments != [""]\<close>.\<close>

definition is_attachment_requested :: "pystr list option \<Rightarrow> bool" where
  "is_attachment_requested attachments =
     (case attachments of
        None \<Rightarrow> False
      | Some xs \<Rightarrow> xs \<noteq> [] \<and> xs \<noteq> [[]])"

section \<open>Library functions the attachment loop calls\<close>

text \<open>
  \<open>base64.b64encode\<close> of the standard library (RFC 4648, standard alphabet, padded with
  \<open>=\<close>), followed by \<open>.decode()\<close>: three bytes give four characters.
\<close>

definition b64_alphabet :: pystr where
  "b64_alphabet = str ''ABCDEFGHIJKLMNOPQRSTUVWXYZabcdefghijklmnopqrstuvwxyz0123456789+/''"

definition b64_char :: "nat \<Rightarrow> nat" where
  "b64_char i = b64_alphabet ! (i mod 64)"

definition b64_pad :: nat where
  "b64_pad = 61"

fun b64encode :: "bytes \<Rightarrow> pystr" where
  "b64encode [] = []"
| "b64encode [a] =
     (let n = unat a * 65536
      in [b64_char (n div 262144), b64_char (n div 4096), b64_pad, b64_pad])"
| "b64encode [a, b] =
     (let n = unat a * 65536 + unat b * 256
      in [b64_char (n div 262144), b64_char (n div 4096), b64_char (n div 64), b64_pad])"
| "b64encode (a # b # c # rest) =
     (let n = unat a * 65536 + unat b * 256 + unat c
      in [b64_char (n div 262144), b64_char (n div 4096), b64_char (n div 64), b64_char n]
         @ b64encode rest)"

text \<open>
  \<open>pathlib.Path(filepath).name\<close> on a POSIX host: the path is split at the separators,
  empty components and \<open>.\<close> components are dropped, and the name is the last component
  left, or the empty string when none is.
\<close>

definition path_name :: "pystr \<Rightarrow> pystr" where
  "path_name filepath =
     (case filter (\<lambda>x. x \<noteq> [] \<and> x \<noteq> str ''.'') (py_split sep filepath) of
        [] \<Rightarrow> []
      | part # parts \<Rightarrow> last (part # parts))"

section \<open>Messages, the parsed arguments and the environment\<close>

text \<open>
  The five fields \<open>Attachment(...)\<close> is built from, and the part of \<open>Mail\<close> the program
  sets. \<open>attachments\<close> holds the records handed to \<open>message.add_attachment\<close>, in the
  order of the calls.
\<close>

record attachment =
  file_content :: pystr
  file_name :: pystr
  file_type :: pystr
  disposition :: pystr
  content_id :: pystr

record mail =
  from_email :: pystr
  to_emails :: "pystr list"
  subject :: pystr
  html_content :: pystr
  attachments :: "attachment list"

definition add_attachment :: "mail \<Rightarrow> attachment \<Rightarrow> mail" where
  "add_attachment message a = message\<lparr>attachments := attachments message @ [a]\<rparr>"

text \<open>
  The namespace \<open>parser.parse_args()\<close> returns. \<open>--attachments\<close> has no default, so it is
  \<open>None\<close> when the option is absent; \<open>--attachments-disposition\<close> defaults to the list
  holding \<open>ATTACHMENT\<close>.
\<close>

record args =
  arg_to_email :: "pystr list"
  arg_subject :: pystr
  arg_markdown_body :: pystr
  arg_from_email :: pystr
  arg_api_key :: pystr
  arg_attachments :: "pystr list option"
  arg_attachments_disposition :: "pystr list"

record response =
  status_code :: int
  body :: bytes
  headers :: "(pystr \<times> pystr) list"

datatype py_exception =
    ValueError pystr
  | FileNotFoundError pystr
  | PermissionError pystr
  | OSError pystr
  | Exception pystr

text \<open>\<open>f"{exp}"\<close>: the message of the exception.\<close>

fun exception_str :: "py_exception \<Rightarrow> pystr" where
  "exception_str (ValueError s) = s"
| "exception_str (FileNotFoundError s) = s"
| "exception_str (PermissionError s) = s"
| "exception_str (OSError s) = s"
| "exception_str (Exception s) = s"

text \<open>What a run does that can be observed from outside, in the order it does it.\<close>

datatype printed =
    PStr pystr
  | PInt int
  | PBytes bytes
  | PHeaders "(pystr \<times> pystr) list"
  | PNamespace args

datatype event =
    Print printed
  | WriteErr pystr
  | OpenFile pystr
  | MagicFile pystr
  | Send pystr mail

datatype outcome =
    Exit nat
  | Uncaught py_exception

record run =
  trace :: "event list"
  outcome :: outcome

text \<open>
  Everything the program takes from outside its own code. The file system is the same
  for the whole run: \<open>open_read\<close> is \<open>open(filepath, "rb")\<close> followed by \<open>f.read()\<close>, and
  \<open>magic.from_file\<close> reads the same file and lets libmagic inspect its content
  (\<open>magic_buffer\<close>). \<open>markdown_markdown\<close> is \<open>markdown.markdown\<close>, \<open>sg_send\<close> is
  \<open>SendGridAPIClient(api_key).send(message)\<close>.

  \<open>print_dirs\<close>, \<open>print_tree\<close> and the \<open>os.walk\<close> of \<open>find_file\<close> list the directory tree
  of the host, which no argument of the program determines. The model takes from the
  environment what each of these calls prints and how it ends: \<open>print_dirs\<close> and
  \<open>print_tree\<close> catch \<open>PermissionError\<close> only, so any other error of \<open>os.listdir\<close> (a
  \<open>FileNotFoundError\<close> for a start directory that does not exist) leaves them as an
  exception; \<open>os.walk\<close> skips the directories it cannot list.
\<close>

record env =
  markdown_markdown :: "pystr \<Rightarrow> pystr"
  print_dirs_run :: "pystr list \<times> py_exception option"
  print_tree_run :: "pystr \<Rightarrow> pystr list \<times> py_exception option"
  os_walk_find :: "pystr \<Rightarrow> pystr \<Rightarrow> pystr option"
  open_read :: "pystr \<Rightarrow> py_exception + bytes"
  magic_buffer :: "bytes \<Rightarrow> py_exception + pystr"
  sg_send :: "pystr \<Rightarrow> mail \<Rightarrow> py_exception + response"

definition print_lines :: "pystr list \<Rightarrow> event list" where
  "print_lines ls = map (\<lambda>l. Print (PStr l)) ls"

definition magic_from_file :: "env \<Rightarrow> pystr \<Rightarrow> py_exception + pystr" where
  "magic_from_file env filepath =
     (case open_read env filepath of
        Inl e \<Rightarrow> Inl e
      | Inr content \<Rightarrow> magic_buffer env content)"

text \<open>\<open>find_file\<close>: the announcement, then the search of \<open>os.walk\<close>.\<close>

definition find_file :: "env \<Rightarrow> pystr \<Rightarrow> pystr \<Rightarrow> event list \<times> pystr option" where
  "find_file env filename start_dir =
     ([Print (PStr (str ''Searching for '' @ [39] @ filename @ [39] @ str '' starting from ''
                    @ [39] @ start_dir @ [39] @ str ''...''))],
      os_walk_find env filename start_dir)"

section \<open>Attaching the files\<close>

text \<open>
  The body of the \<open>for\<close> loop of \<open>add_attachments\<close> up to the construction of the record:
  the file is opened and read whole, encoded, typed by libmagic, and named by the last
  component of its path, which is also its content identifier. An exception of \<open>open\<close>
  or of libmagic ends the body there.
\<close>

definition build_attachment ::
    "env \<Rightarrow> pystr \<Rightarrow> pystr \<Rightarrow> event list \<times> (py_exception + attachment)" where
  "build_attachment env filepath disp =
     (case open_read env filepath of
        Inl e \<Rightarrow> ([OpenFile filepath], Inl e)
      | Inr content \<Rightarrow>
          (let encoded_file = b64encode content
           in case magic_from_file env filepath of
                Inl e \<Rightarrow> ([OpenFile filepath, MagicFile filepath], Inl e)
              | Inr mimetype \<Rightarrow>
                  (let filename = path_name filepath
                   in ([OpenFile filepath, MagicFile filepath],
                       Inr \<lparr>file_content = encoded_file, file_name = filename,
                            file_type = mimetype, disposition = disp,
                            content_id = filename\<rparr>))))"

text \<open>
  The loop over \<open>zip(attachments, dispositions)\<close>. The message is changed in place, so
  the model returns it in the state the loop left it in, also when the loop ends by an
  exception, together with the events and the exception if any.
\<close>

fun attach_loop ::
    "env \<Rightarrow> mail \<Rightarrow> (pystr \<times> pystr) list \<Rightarrow> event list \<times> mail \<times> py_exception option" where
  "attach_loop env message [] = ([], message, None)"
| "attach_loop env message ((filepath, disp) # rest) =
     (case build_attachment env filepath disp of
        (evs, Inl e) \<Rightarrow> (evs, message, Some e)
      | (evs, Inr a) \<Rightarrow>
          (case attach_loop env (add_attachment message a) rest of
             (evs', message', exc) \<Rightarrow> (evs @ evs', message', exc)))"

definition target_file :: pystr where
  "target_file = str ''on-prem-apisix-dashboard.txt''"

definition mismatch_message :: pystr where
  "mismatch_message = str ''Number of attachments and dispositions must be the same''"

text \<open>
  \<open>add_attachments\<close>: the single unset value counts as no value; no value gives every
  file \<open>ATTACHMENT\<close>, one value is given to every file, several values must be as many as
  the files or \<open>ValueError\<close> is raised. Then the search for the fixed file name is printed,
  and the loop runs.
\<close>

definition add_attachments ::
    "env \<Rightarrow> mail \<Rightarrow> pystr list \<Rightarrow> pystr list \<Rightarrow> event list \<times> mail \<times> py_exception option" where
  "add_attachments env message atts disps =
     (let disps1 = (if length disps = 1 \<and> disps ! 0 = EMPTY then [] else disps);
          checked =
            (if disps1 = [] then Inr (replicate (length atts) ATTACHMENT)
             else if length disps1 = 1 then Inr (replicate (length atts) (disps1 ! 0))
             else if length atts \<noteq> length disps1 then Inl (ValueError mismatch_message)
             else Inr disps1)
      in case checked of
           Inl e \<Rightarrow> ([], message, Some e)
         | Inr disps2 \<Rightarrow>
             (case find_file env target_file [sep] of
                (evs, result) \<Rightarrow>
                  (let report =
                         (if result \<noteq> None \<and> result \<noteq> Some []
                          then Print (PStr (str ''File found at: '' @ the result))
                          else Print (PStr (str ''File '' @ [39] @ target_file @ [39]
                                            @ str '' not found.'')))
                   in case attach_loop env message (zip atts disps2) of
                        (evs', message', exc) \<Rightarrow> (evs @ [report] @ evs', message', exc))))"

section \<open>The main block\<close>

text \<open>
  Up to the listings: the namespace is printed, the message is built with the rendered
  body and no attachment, and the three directory listings run; the first of them that
  raises ends the run.
\<close>

definition new_message :: "env \<Rightarrow> args \<Rightarrow> mail" where
  "new_message env a =
     \<lparr>from_email = arg_from_email a, to_emails = arg_to_email a, subject = arg_subject a,
      html_content = markdown_markdown env (arg_markdown_body a), attachments = []\<rparr>"

definition listings :: "env \<Rightarrow> event list \<times> py_exception option" where
  "listings env =
     (case print_dirs_run env of
        (out1, Some e) \<Rightarrow> (print_lines out1, Some e)
      | (out1, None) \<Rightarrow>
          (case print_tree_run env (str ''/Users'') of
             (out2, Some e) \<Rightarrow> (print_lines out1 @ print_lines out2, Some e)
           | (out2, None) \<Rightarrow>
               (case print_tree_run env (str ''/workspace'') of
                  (out3, exc) \<Rightarrow>
                    (print_lines out1 @ print_lines out2 @ print_lines out3, exc))))"

text \<open>The values of the two options after the line feed rule.\<close>

definition effective_attachments :: "args \<Rightarrow> pystr list option" where
  "effective_attachments a = map_option split_single_value (arg_attachments a)"

definition effective_dispositions :: "args \<Rightarrow> pystr list" where
  "effective_dispositions a = split_single_value (arg_attachments_disposition a)"

text \<open>
  The \<open>try\<close> block: one call of \<open>send\<close>; the three prints on a response, the message of
  the exception on the error stream and \<open>exit(1)\<close> otherwise.
\<close>

definition deliver :: "env \<Rightarrow> pystr \<Rightarrow> mail \<Rightarrow> event list \<times> outcome" where
  "deliver env api_key message =
     (case sg_send env api_key message of
        Inr resp \<Rightarrow>
          ([Send api_key message, Print (PInt (status_code resp)), Print (PBytes (body resp)),
            Print (PHeaders (headers resp))], Exit 0)
      | Inl exp \<Rightarrow>
          ([Send api_key message, WriteErr (exception_str exp @ [newline])], Exit 1))"

definition main :: "env \<Rightarrow> args \<Rightarrow> run" where
  "main env a =
     (let message = new_message env a;
          start = [Print (PNamespace a)]
      in case listings env of
           (evs1, Some e) \<Rightarrow> \<lparr>trace = start @ evs1, outcome = Uncaught e\<rparr>
         | (evs1, None) \<Rightarrow>
             (let atts = effective_attachments a;
                  disps = effective_dispositions a
              in if is_attachment_requested atts
                 then (case add_attachments env message (the atts) disps of
                         (evs2, message', Some e) \<Rightarrow>
                           \<lparr>trace = start @ evs1 @ evs2, outcome = Uncaught e\<rparr>
                       | (evs2, message', None) \<Rightarrow>
                           (case deliver env (arg_api_key a) message' of
                              (evs3, out) \<Rightarrow>
                                \<lparr>trace = start @ evs1 @ evs2 @ evs3, outcome = out\<rparr>))
                 else (case deliver env (arg_api_key a) message of
                         (evs3, out) \<Rightarrow> \<lparr>trace = start @ evs1 @ evs3, outcome = out\<rparr>)))"

section \<open>Notions the properties are stated with\<close>

text \<open>The records a call added to a message, and the kinds of events.\<close>

definition added_attachments :: "mail \<Rightarrow> mail \<Rightarrow> attachment list" where
  "added_attachments before after = drop (length (attachments before)) (attachments after)"

fun is_send :: "event \<Rightarrow> bool" where
  "is_send (Send k m) = True"
| "is_send _ = False"

fun is_file_event :: "event \<Rightarrow> bool" where
  "is_file_event (OpenFile p) = True"
| "is_file_event (MagicFile p) = True"
| "is_file_event _ = False"

definition from_send :: "event list \<Rightarrow> event list" where
  "from_send evs = dropWhile (\<lambda>e. \<not> is_send e) evs"

text \<open>
  The values the parser admits for \<open>--attachments-disposition\<close>:
  \<open>choices=list(AttachmentDisposition)\<close>.
\<close>

definition choices :: "pystr list" where
  "choices = [INLINE, ATTACHMENT, EMPTY]"

text \<open>A file the loop can attach: it can be read and libmagic types its content.\<close>

definition readable :: "env \<Rightarrow> pystr \<Rightarrow> bool" where
  "readable env filepath =
     (case open_read env filepath of
        Inl e \<Rightarrow> False
      | Inr content \<Rightarrow> (case magic_buffer env content of Inl e \<Rightarrow> False | Inr t \<Rightarrow> True))"

text \<open>
  A value that the line feed rule gives back as it is: not empty, without a line feed,
  and without white space at either end.
\<close>

definition plain_value :: "pystr \<Rightarrow> bool" where
  "plain_value s \<longleftrightarrow>
     s \<noteq> [] \<and> newline \<notin> set s \<and> \<not> py_isspace (hd s) \<and> \<not> py_isspace (last s)"

text \<open>
  The main block before the \<open>try\<close>: the events up to there, the message as it stands, and
  the exception that ended the run if one did.
\<close>

definition before_send :: "env \<Rightarrow> args \<Rightarrow> event list \<times> mail \<times> py_exception option" where
  "before_send env a =
     (case listings env of
        (evs1, Some e) \<Rightarrow> (Print (PNamespace a) # evs1, new_message env a, Some e)
      | (evs1, None) \<Rightarrow>
          (if is_attachment_requested (effective_attachments a)
           then (case add_attachments env (new_message env a) (the (effective_attachments a))
                        (effective_dispositions a) of
                   (evs2, message', exc) \<Rightarrow> (Print (PNamespace a) # evs1 @ evs2, message', exc))
           else (Print (PNamespace a) # evs1, new_message env a, None)))"

text \<open>What \<open>add_attachments\<close> prints between the count check and the loop.\<close>

definition search_events :: "env \<Rightarrow> event list" where
  "search_events env =
     (case find_file env target_file [sep] of
        (evs, result) \<Rightarrow>
          evs @ [if result \<noteq> None \<and> result \<noteq> Some []
                 then Print (PStr (str ''File found at: '' @ the result))
                 else Print (PStr (str ''File '' @ [39] @ target_file @ [39]
                                   @ str '' not found.''))])"

section \<open>A sample host\<close>

text \<open>
  A host with two files under \<open>/tmp\<close>, directory listings that succeed, no file of the
  searched name, and a provider that accepts the key \<open>good\<close> with status 202 and rejects
  any other key. The renderer wraps the body in a paragraph.
\<close>

definition sample_env :: env where
  "sample_env =
     \<lparr>markdown_markdown = (\<lambda>s. str ''<p>'' @ s @ str ''</p>''),
      print_dirs_run = ([str ''/''], None),
      print_tree_run = (\<lambda>d. ([], None)),
      os_walk_find = (\<lambda>f d. None),
      open_read = (\<lambda>p. if p = str ''/tmp/a.txt'' then Inr [72, 105]
                        else if p = str ''/tmp/b.txt'' then Inr [72]
                        else Inl (FileNotFoundError p)),
      magic_buffer = (\<lambda>c. Inr (str ''text/plain'')),
      sg_send = (\<lambda>k m. if k = str ''good''
                        then Inr \<lparr>status_code = 202, body = [], headers = []\<rparr>
                        else Inl (Exception (str ''HTTP Error 401: Unauthorized'')))\<rparr>"

definition sample_message :: mail where
  "sample_message =
     \<lparr>from_email = str ''a@x.org'', to_emails = [str ''b@y.org''], subject = str ''Hi'',
      html_content = str ''<p>Hi</p>'', attachments = []\<rparr>"

definition sample_args :: args where
  "sample_args =
     \<lparr>arg_to_email = [str ''b@y.org''], arg_subject = str ''Hi'',
      arg_markdown_body = str ''Hi'', arg_from_email = str ''a@x.org'',
      arg_api_key = str ''good'', arg_attachments = None,
      arg_attachments_disposition = [ATTACHMENT]\<rparr>"

section \<open>Splitting, path names and the encoding\<close>

text \<open>\<open>split\<close> never returns the empty list, cuts at every separator, and leaves none in a piece.\<close>

lemma py_split_not_Nil: "py_split c xs \<noteq> []"
  by (induction xs) (auto split: list.splits)

lemma py_split_append: "py_split c (xs @ c # ys) = py_split c xs @ py_split c ys"
proof (induction xs)
  case Nil
  then show ?case by simp
next
  case (Cons x xs)
  then show ?case
    using py_split_not_Nil [of c xs] by (cases "py_split c xs") auto
qed

lemma py_split_no_sep: "c \<notin> set xs \<Longrightarrow> py_split c xs = [xs]"
  by (induction xs) auto

lemma py_split_pieces: "x \<in> set (py_split c xs) \<Longrightarrow> c \<notin> set x"
proof (induction xs arbitrary: x)
  case Nil
  then show ?case by simp
next
  case (Cons y ys)
  show ?case
  proof (cases "y = c")
    case True
    with Cons show ?thesis by auto
  next
    case False
    obtain p ps where ps: "py_split c ys = p # ps"
      using py_split_not_Nil [of c ys] by (cases "py_split c ys") auto
    with Cons.prems False have "x = y # p \<or> x \<in> set ps"
      by auto
    with Cons.IH ps False show ?thesis
      by auto
  qed
qed

text \<open>
  Stripping leaves a string as it is when neither end matches, removes nothing that was
  not there, and leaves no matching character at either end.
\<close>

lemma strip_where_id:
  assumes "s \<noteq> []" and "\<not> P (hd s)" and "\<not> P (last s)"
  shows "strip_where P s = s"
proof -
  from assms(2) have "dropWhile P s = s"
    by (simp add: dropWhile_eq_self_iff)
  moreover from assms(1,3) have "dropWhile P (rev s) = rev s"
    by (simp add: dropWhile_eq_self_iff hd_rev)
  ultimately show ?thesis
    by (simp add: strip_where_def)
qed

lemma strip_where_subset: "set (strip_where P s) \<subseteq> set s"
proof
  fix x
  assume "x \<in> set (strip_where P s)"
  then have "x \<in> set (dropWhile P (rev (dropWhile P s)))"
    by (simp add: strip_where_def)
  then have "x \<in> set (rev (dropWhile P s))"
    by (rule set_dropWhileD)
  then have "x \<in> set (dropWhile P s)"
    by simp
  then show "x \<in> set s"
    by (rule set_dropWhileD)
qed

lemma strip_where_ends:
  assumes "strip_where P s \<noteq> []"
  shows "\<not> P (hd (strip_where P s)) \<and> \<not> P (last (strip_where P s))"
proof -
  define t where "t = dropWhile P s"
  define u where "u = dropWhile P (rev t)"
  have res: "strip_where P s = rev u"
    by (simp add: strip_where_def t_def u_def)
  with assms have u: "u \<noteq> []"
    by simp
  then have t: "t \<noteq> []"
    by (auto simp: u_def)
  from u have "\<not> P (hd u)"
    unfolding u_def by (rule hd_dropWhile)
  moreover have "last u = last (rev t)"
  proof -
    have "u = drop (length (takeWhile P (rev t))) (rev t)"
      by (simp add: u_def dropWhile_eq_drop)
    moreover from u have "length (takeWhile P (rev t)) < length (rev t)"
      using calculation by auto
    ultimately show ?thesis
      by (metis last_drop)
  qed
  moreover from t have "\<not> P (hd t)"
    unfolding t_def by (rule hd_dropWhile)
  ultimately show ?thesis
    using u t by (simp add: res hd_rev last_rev)
qed

text \<open>
  The second strip of \<open>extract_str\<close> finds nothing to remove, since the line feed is white
  space. Every value \<open>convert_to_list\<close> returns is plain, and two plain values joined by a
  line feed come back as they are; so the joined value is read as the two values
  exactly when both are plain.
\<close>

lemma py_isspace_newline: "py_isspace newline"
  by (simp add: py_isspace_def newline_def)

lemma extract_str_strip: "extract_str s = py_strip s"
proof (cases "py_strip s = []")
  case True
  then show ?thesis
    by (simp add: extract_str_def py_strip_chars_def strip_where_def)
next
  case False
  then have "\<not> py_isspace (hd (py_strip s)) \<and> \<not> py_isspace (last (py_strip s))"
    unfolding py_strip_def by (rule strip_where_ends)
  with py_isspace_newline have "hd (py_strip s) \<noteq> newline" "last (py_strip s) \<noteq> newline"
    by auto
  with False show ?thesis
    by (simp add: extract_str_def py_strip_chars_def strip_where_id)
qed


lemma convert_to_list_plain:
  assumes "x \<in> set (convert_to_list arg)"
  shows "plain_value x"
proof -
  from assms obtain piece where piece: "piece \<in> set (py_split newline arg)"
    and x: "x = py_strip piece" and ne: "x \<noteq> []"
    by (auto simp: convert_to_list_def is_not_empty_def extract_str_strip)
  from piece have "newline \<notin> set piece"
    by (rule py_split_pieces)
  with x have "newline \<notin> set x"
    using strip_where_subset [of py_isspace piece] by (auto simp: py_strip_def)
  moreover from ne x have "\<not> py_isspace (hd x) \<and> \<not> py_isspace (last x)"
    using strip_where_ends [of py_isspace piece] by (simp add: py_strip_def)
  ultimately show ?thesis
    using ne by (simp add: plain_value_def)
qed


lemma split_single_value_joined:
  "split_single_value [p @ newline # q] = convert_to_list (p @ newline # q)"
  by (simp add: split_single_value_def)

lemma split_single_value_pair: "split_single_value [p, q] = [p, q]"
  by (simp add: split_single_value_def)

lemma joined_value_only_plain:
  assumes "split_single_value [p @ [newline] @ q] = split_single_value [p, q]"
  shows "plain_value p \<and> plain_value q"
proof -
  from assms have "convert_to_list (p @ newline # q) = [p, q]"
    by (simp add: split_single_value_joined split_single_value_pair)
  then have "p \<in> set (convert_to_list (p @ newline # q))"
    "q \<in> set (convert_to_list (p @ newline # q))"
    by simp_all
  then show ?thesis
    by (blast intro: convert_to_list_plain)
qed

text \<open>
  None of the values the parser admits as a disposition holds a line feed, so a
  disposition list of such values, the default among them, is left as it is.
\<close>

lemma choices_unsplit:
  assumes "set (arg_attachments_disposition a) \<subseteq> set choices"
  shows "effective_dispositions a = arg_attachments_disposition a"
proof -
  have "newline \<notin> set d" if "d \<in> set choices" for d
    using that by (auto simp: choices_def INLINE_def ATTACHMENT_def EMPTY_def newline_def str_def)
  with assms have "\<forall>d \<in> set (arg_attachments_disposition a). newline \<notin> set d"
    by blast
  then show ?thesis
    by (cases "arg_attachments_disposition a")
      (auto simp: effective_dispositions_def split_single_value_def)
qed

text \<open>
  The name of a path is its last component: a component that is not empty, holds no
  separator and is not \<open>.\<close> is the name of itself and of every path that ends with a
  separator followed by it.
\<close>

lemma path_name_plain:
  assumes "name \<noteq> []" and "sep \<notin> set name" and "name \<noteq> str ''.''"
  shows "path_name name = name"
  using assms by (simp add: path_name_def py_split_no_sep)

lemma path_name_last:
  "path_name filepath =
     (let parts = filter (\<lambda>x. x \<noteq> [] \<and> x \<noteq> str ''.'') (py_split sep filepath)
      in if parts = [] then [] else last parts)"
  by (cases "filter (\<lambda>x. x \<noteq> [] \<and> x \<noteq> str ''.'') (py_split sep filepath)")
    (simp_all add: path_name_def del: last.simps)

lemma path_name_join:
  assumes "name \<noteq> []" and "sep \<notin> set name" and "name \<noteq> str ''.''"
  shows "path_name (dir @ sep # name) = name"
  using assms by (simp add: path_name_last py_split_append py_split_no_sep)

text \<open>The encoding gives four characters for every three bytes begun, and the test vectors of RFC 4648.\<close>

lemma b64encode_length: "length (b64encode bs) = 4 * ((length bs + 2) div 3)"
proof (induction bs rule: b64encode.induct)
  case (4 a b c rest)
  have "(length (a # b # c # rest) + 2) div 3 = Suc ((length rest + 2) div 3)"
    by simp
  with 4 show ?case
    by (simp add: Let_def del: length_Cons)
qed (simp_all add: Let_def)

lemma b64encode_rfc4648:
  "b64encode [] = []"
  "b64encode [102] = str ''Zg==''"
  "b64encode [102, 111] = str ''Zm8=''"
  "b64encode [102, 111, 111] = str ''Zm9v''"
  "b64encode [102, 111, 111, 98] = str ''Zm9vYg==''"
  "b64encode [102, 111, 111, 98, 97] = str ''Zm9vYmE=''"
  "b64encode [102, 111, 111, 98, 97, 114] = str ''Zm9vYmFy''"
  by (simp_all add: b64_char_def b64_alphabet_def b64_pad_def str_def)

section \<open>The attachment loop\<close>

text \<open>What one round of the loop builds, when it builds a record.\<close>

lemma build_attachment_fields:
  assumes "snd (build_attachment env filepath disp) = Inr a"
  shows "disposition a = disp \<and> file_name a = path_name filepath
         \<and> content_id a = path_name filepath
         \<and> (case open_read env filepath of
               Inl e \<Rightarrow> False
             | Inr content \<Rightarrow>
                 file_content a = b64encode content
                 \<and> magic_buffer env content = Inr (file_type a))"
  using assms
  by (auto simp: build_attachment_def magic_from_file_def Let_def split: sum.splits)

lemma build_attachment_readable:
  "readable env filepath \<longleftrightarrow> (\<exists>a. snd (build_attachment env filepath disp) = Inr a)"
  by (auto simp: build_attachment_def magic_from_file_def readable_def Let_def
      split: sum.splits)

lemma build_attachment_events:
  "e \<in> set (fst (build_attachment env filepath disp)) \<Longrightarrow> is_file_event e"
  by (auto simp: build_attachment_def magic_from_file_def Let_def split: sum.splits)

text \<open>
  The loop appends one record for each pair it gets through, in order, changes nothing
  else of the message, and ends without exception exactly when it got through all pairs.
\<close>

lemma attach_loop_result:
  assumes "attach_loop env message pds = (evs, message', exc)"
  shows "\<exists>as. message' = message\<lparr>attachments := attachments message @ as\<rparr>
              \<and> length as \<le> length pds
              \<and> (exc = None \<longleftrightarrow> length as = length pds)
              \<and> (\<forall>i < length as.
                    snd (build_attachment env (fst (pds ! i)) (snd (pds ! i))) = Inr (as ! i))
              \<and> (\<forall>e \<in> set evs. is_file_event e)"
  using assms
proof (induction pds arbitrary: message evs message' exc)
  case Nil
  then show ?case by simp
next
  case (Cons pd rest)
  obtain filepath disp where pd: "pd = (filepath, disp)"
    by (cases pd)
  obtain evs0 r where b: "build_attachment env filepath disp = (evs0, r)"
    by (cases "build_attachment env filepath disp")
  have ev0: "\<forall>e \<in> set evs0. is_file_event e"
    using build_attachment_events [of _ env filepath disp] b by simp
  show ?case
  proof (cases r)
    case (Inl e)
    with Cons.prems pd b ev0 show ?thesis
      by (intro exI [of _ "[]"]) auto
  next
    case (Inr a)
    obtain evs1 m1 exc1
      where l: "attach_loop env (add_attachment message a) rest = (evs1, m1, exc1)"
      by (cases "attach_loop env (add_attachment message a) rest")
    from Cons.IH [OF l] obtain as
      where as: "m1 = (add_attachment message a)
                        \<lparr>attachments := attachments (add_attachment message a) @ as\<rparr>"
        "length as \<le> length rest" "exc1 = None \<longleftrightarrow> length as = length rest"
        "\<forall>i < length as.
           snd (build_attachment env (fst (rest ! i)) (snd (rest ! i))) = Inr (as ! i)"
        "\<forall>e \<in> set evs1. is_file_event e"
      by blast
    from Cons.prems pd b Inr l
    have res: "evs = evs0 @ evs1" "message' = m1" "exc = exc1"
      by simp_all
    have idx: "\<forall>i < length (a # as).
                 snd (build_attachment env (fst ((pd # rest) ! i)) (snd ((pd # rest) ! i)))
                 = Inr ((a # as) ! i)"
    proof (intro allI impI)
      fix i
      assume "i < length (a # as)"
      then show "snd (build_attachment env (fst ((pd # rest) ! i)) (snd ((pd # rest) ! i)))
                 = Inr ((a # as) ! i)"
        using as(4) pd b Inr by (cases i) auto
    qed
    show ?thesis
      using res as(1,2,3,5) ev0 idx
      by (intro exI [of _ "a # as"]) (auto simp: add_attachment_def)
  qed
qed

lemma attach_loop_all_readable:
  "\<forall>pd \<in> set pds. readable env (fst pd) \<Longrightarrow> snd (snd (attach_loop env message pds)) = None"
proof (induction pds arbitrary: message)
  case Nil
  then show ?case by simp
next
  case (Cons pd rest)
  obtain filepath disp where pd: "pd = (filepath, disp)"
    by (cases pd)
  from Cons.prems pd have "readable env filepath"
    by simp
  then obtain a where "snd (build_attachment env filepath disp) = Inr a"
    using build_attachment_readable by blast
  then obtain evs0 where b: "build_attachment env filepath disp = (evs0, Inr a)"
    by (cases "build_attachment env filepath disp") simp
  from Cons.prems have "\<forall>pd \<in> set rest. readable env (fst pd)"
    by simp
  from Cons.IH [OF this, of "add_attachment message a"] pd b show ?case
    by (auto split: prod.splits)
qed

text \<open>The same for the loop over the paths zipped with as many dispositions.\<close>

lemma run_loop_added:
  assumes "attach_loop env message (zip atts ds) = (evs, message', exc)"
    and "length ds = length atts"
  shows "message' = message\<lparr>attachments := attachments message @ added_attachments message message'\<rparr>
         \<and> length (added_attachments message message') \<le> length atts
         \<and> (exc = None \<longleftrightarrow> length (added_attachments message message') = length atts)
         \<and> (\<forall>i < length (added_attachments message message').
               snd (build_attachment env (atts ! i) (ds ! i))
               = Inr (added_attachments message message' ! i))
         \<and> (\<forall>e \<in> set evs. is_file_event e)"
proof -
  from attach_loop_result [OF assms(1)] obtain as
    where as: "message' = message\<lparr>attachments := attachments message @ as\<rparr>"
      "length as \<le> length (zip atts ds)" "exc = None \<longleftrightarrow> length as = length (zip atts ds)"
      "\<forall>i < length as.
         snd (build_attachment env (fst (zip atts ds ! i)) (snd (zip atts ds ! i))) = Inr (as ! i)"
      "\<forall>e \<in> set evs. is_file_event e"
    by blast
  from as(1) have added: "added_attachments message message' = as"
    by (simp add: added_attachments_def)
  from as(2,4) assms(2)
  have "\<forall>i < length as. snd (build_attachment env (atts ! i) (ds ! i)) = Inr (as ! i)"
    by auto
  with as assms(2) added show ?thesis
    by simp
qed

text \<open>\<open>add_attachments\<close> by the four cases of its count check.\<close>

lemma add_attachments_unfold:
  "add_attachments env message atts disps =
     (if disps = [] \<or> disps = [EMPTY]
      then (case attach_loop env message (zip atts (replicate (length atts) ATTACHMENT)) of
              (evs', message', exc) \<Rightarrow> (search_events env @ evs', message', exc))
      else if length disps = 1
      then (case attach_loop env message (zip atts (replicate (length atts) (disps ! 0))) of
              (evs', message', exc) \<Rightarrow> (search_events env @ evs', message', exc))
      else if length atts \<noteq> length disps
      then ([], message, Some (ValueError mismatch_message))
      else (case attach_loop env message (zip atts disps) of
              (evs', message', exc) \<Rightarrow> (search_events env @ evs', message', exc)))"
proof -
  have one: "length disps = 1 \<and> disps ! 0 = EMPTY \<longleftrightarrow> disps = [EMPTY]"
    by (cases disps) auto
  show ?thesis
    unfolding add_attachments_def search_events_def one
    by (simp add: Let_def split: prod.splits)
qed

lemma search_events_prints:
  "e \<in> set (search_events env) \<Longrightarrow> \<not> is_send e \<and> \<not> is_file_event e"
  by (auto simp: search_events_def find_file_def split: prod.splits if_splits)

text \<open>What the loop over equally many paths and dispositions leaves in the message.\<close>

lemma loop_records:
  assumes "attach_loop env message (zip atts ds) = (evs, message', exc)"
    and "length ds = length atts"
  shows "length (added_attachments message message') \<le> length atts"
    and "exc = None \<longleftrightarrow> length (added_attachments message message') = length atts"
    and "(\<forall>p \<in> set atts. readable env p) \<longrightarrow> exc = None"
    and "\<forall>i < length (added_attachments message message').
           disposition (added_attachments message message' ! i) = ds ! i
           \<and> file_name (added_attachments message message' ! i) = path_name (atts ! i)
           \<and> content_id (added_attachments message message' ! i) = path_name (atts ! i)
           \<and> (case open_read env (atts ! i) of
                 Inl e \<Rightarrow> False
               | Inr content \<Rightarrow>
                   file_content (added_attachments message message' ! i) = b64encode content
                   \<and> magic_buffer env content
                     = Inr (file_type (added_attachments message message' ! i)))"
proof -
  note r = run_loop_added [OF assms]
  from r show "length (added_attachments message message') \<le> length atts"
    by blast
  from r show "exc = None \<longleftrightarrow> length (added_attachments message message') = length atts"
    by blast
  show "(\<forall>p \<in> set atts. readable env p) \<longrightarrow> exc = None"
  proof
    assume "\<forall>p \<in> set atts. readable env p"
    then have "\<forall>pd \<in> set (zip atts ds). readable env (fst pd)"
      by (auto dest: set_zip_leftD)
    from attach_loop_all_readable [OF this, of message] assms(1) show "exc = None"
      by simp
  qed
  from r have "\<forall>i < length (added_attachments message message').
                 snd (build_attachment env (atts ! i) (ds ! i))
                 = Inr (added_attachments message message' ! i)"
    by blast
  then show "\<forall>i < length (added_attachments message message').
           disposition (added_attachments message message' ! i) = ds ! i
           \<and> file_name (added_attachments message message' ! i) = path_name (atts ! i)
           \<and> content_id (added_attachments message message' ! i) = path_name (atts ! i)
           \<and> (case open_read env (atts ! i) of
                 Inl e \<Rightarrow> False
               | Inr content \<Rightarrow>
                   file_content (added_attachments message message' ! i) = b64encode content
                   \<and> magic_buffer env content
                     = Inr (file_type (added_attachments message message' ! i)))"
    using build_attachment_fields by blast
qed

section \<open>The shape of a run\<close>

text \<open>
  The listings only print, and \<open>add_attachments\<close> only prints and reads files: nothing
  before the \<open>try\<close> block sends. The main block is what comes before the \<open>try\<close> followed,
  if no exception ended the run, by the delivery, which sends once and first.
\<close>

lemma print_lines_prints: "e \<in> set (print_lines ls) \<Longrightarrow> \<not> is_send e \<and> \<not> is_file_event e"
  by (auto simp: print_lines_def)

lemma listings_prints:
  "e \<in> set (fst (listings env)) \<Longrightarrow> \<not> is_send e \<and> \<not> is_file_event e"
  by (auto simp: listings_def split: prod.splits option.splits dest: print_lines_prints)

lemma file_event_not_send: "is_file_event e \<Longrightarrow> \<not> is_send e"
  by (cases e) simp_all

lemma add_attachments_no_send:
  assumes "add_attachments env message atts disps = (evs, message', exc)"
  shows "\<forall>e \<in> set evs. \<not> is_send e"
proof -
  have loop: "\<forall>e \<in> set evs'. \<not> is_send e"
    if "attach_loop env message pds = (evs', m', exc')" for pds evs' m' exc'
    using attach_loop_result [OF that] file_event_not_send by blast
  from assms show ?thesis
    by (auto simp: add_attachments_unfold split: if_splits prod.splits
        dest: search_events_prints loop [rule_format])
qed

lemma main_before_send:
  "main env a =
     (case before_send env a of
        (evs, message, Some e) \<Rightarrow> \<lparr>trace = evs, outcome = Uncaught e\<rparr>
      | (evs, message, None) \<Rightarrow>
          \<lparr>trace = evs @ fst (deliver env (arg_api_key a) message),
           outcome = snd (deliver env (arg_api_key a) message)\<rparr>)"
  by (simp add: main_def before_send_def Let_def split: prod.splits option.splits)

lemma before_send_no_send:
  assumes "before_send env a = (evs, message, exc)"
  shows "\<forall>e \<in> set evs. \<not> is_send e"
proof -
  obtain evs1 exc1 where l: "listings env = (evs1, exc1)"
    by (cases "listings env")
  have p: "\<forall>e \<in> set evs1. \<not> is_send e"
    using listings_prints [of _ env] l by simp
  show ?thesis
  proof (cases "exc1 = None \<and> is_attachment_requested (effective_attachments a)")
    case True
    obtain evs2 m2 exc2
      where r: "add_attachments env (new_message env a) (the (effective_attachments a))
                  (effective_dispositions a) = (evs2, m2, exc2)"
      by (cases "add_attachments env (new_message env a) (the (effective_attachments a))
                   (effective_dispositions a)")
    from add_attachments_no_send [OF r] have "\<forall>e \<in> set evs2. \<not> is_send e" .
    with assms l True r p show ?thesis
      by (auto simp: before_send_def)
  next
    case False
    with assms l p show ?thesis
      by (auto simp: before_send_def split: option.splits if_splits)
  qed
qed

lemma deliver_events:
  "fst (deliver env k m) =
     Send k m # (case sg_send env k m of
                   Inl exp \<Rightarrow> [WriteErr (exception_str exp @ [newline])]
                 | Inr resp \<Rightarrow> [Print (PInt (status_code resp)), Print (PBytes (body resp)),
                                Print (PHeaders (headers resp))])"
  "snd (deliver env k m) = (case sg_send env k m of Inl exp \<Rightarrow> Exit 1 | Inr resp \<Rightarrow> Exit 0)"
  by (simp_all add: deliver_def split: sum.splits)

lemma deliver_one_send:
  "filter is_send (fst (deliver env k m)) = [Send k m]"
  "from_send (fst (deliver env k m)) = fst (deliver env k m)"
  "\<not> list_ex is_file_event (fst (deliver env k m))"
  by (simp_all add: deliver_def from_send_def split: sum.splits)

text \<open>A run that sends: what came before holds no send, and the rest is the delivery.\<close>

lemma main_sends:
  assumes "Send k m \<in> set (trace (main env a))"
  shows "\<exists>evs. before_send env a = (evs, m, None) \<and> k = arg_api_key a
               \<and> (\<forall>e \<in> set evs. \<not> is_send e)
               \<and> trace (main env a) = evs @ fst (deliver env k m)
               \<and> outcome (main env a) = snd (deliver env k m)"
proof -
  obtain evs m0 exc where b: "before_send env a = (evs, m0, exc)"
    by (cases "before_send env a")
  note ns = before_send_no_send [OF b]
  show ?thesis
  proof (cases exc)
    case (Some e)
    with b have "trace (main env a) = evs"
      by (simp add: main_before_send)
    with assms ns show ?thesis
      by auto
  next
    case None
    with b have t: "trace (main env a) = evs @ fst (deliver env (arg_api_key a) m0)"
      and o: "outcome (main env a) = snd (deliver env (arg_api_key a) m0)"
      by (simp_all add: main_before_send)
    from assms t ns have "Send k m \<in> set (fst (deliver env (arg_api_key a) m0))"
      by auto
    then have "k = arg_api_key a" "m = m0"
      by (auto simp: deliver_def split: sum.splits)
    with b None t o ns show ?thesis
      by simp
  qed
qed

lemma main_uncaught:
  assumes "outcome (main env a) = Uncaught e"
  shows "\<exists>evs message. before_send env a = (evs, message, Some e) \<and> trace (main env a) = evs"
proof -
  obtain evs m0 exc where b: "before_send env a = (evs, m0, exc)"
    by (cases "before_send env a")
  show ?thesis
  proof (cases exc)
    case (Some e')
    with b assms show ?thesis
      by (simp add: main_before_send)
  next
    case None
    with b assms show ?thesis
      by (simp add: main_before_send deliver_events split: sum.splits)
  qed
qed

text \<open>
  Unless it stopped at the count check, \<open>add_attachments\<close> is the search followed by the
  loop over the paths and as many dispositions. A run that reaches the \<open>try\<close> block does so
  with the rendered body and, when attachments were requested, one record for every path.
\<close>

lemma add_attachments_loop:
  assumes "add_attachments env message atts disps = (evs, message', exc)"
    and "exc \<noteq> Some (ValueError mismatch_message) \<or> message' \<noteq> message \<or> evs \<noteq> []"
  shows "\<exists>ds evs'. length ds = length atts
           \<and> attach_loop env message (zip atts ds) = (evs', message', exc)
           \<and> evs = search_events env @ evs'"
proof (cases "disps = [] \<or> disps = [EMPTY]")
  case True
  with assms(1) show ?thesis
    by (intro exI [of _ "replicate (length atts) ATTACHMENT"])
      (auto simp: add_attachments_unfold split: prod.splits)
next
  case False
  note ne = this
  show ?thesis
  proof (cases "length disps = 1")
    case True
    with ne assms(1) show ?thesis
      by (intro exI [of _ "replicate (length atts) (disps ! 0)"])
        (auto simp: add_attachments_unfold split: prod.splits)
  next
    case False
    note many = this
    show ?thesis
    proof (cases "length atts = length disps")
      case True
      with ne many assms(1) show ?thesis
        by (intro exI [of _ disps]) (auto simp: add_attachments_unfold split: prod.splits)
    next
      case False
      with ne many assms show ?thesis
        by (auto simp: add_attachments_unfold)
    qed
  qed
qed

lemma before_send_message:
  assumes "before_send env a = (evs, m, None)"
  shows "html_content m = markdown_markdown env (arg_markdown_body a)
         \<and> (if is_attachment_requested (effective_attachments a)
             then length (attachments m) = length (the (effective_attachments a))
                  \<and> (\<forall>i < length (attachments m).
                        file_name (attachments m ! i)
                        = path_name (the (effective_attachments a) ! i)
                        \<and> (case open_read env (the (effective_attachments a) ! i) of
                              Inl e \<Rightarrow> False
                            | Inr content \<Rightarrow>
                                file_content (attachments m ! i) = b64encode content
                                \<and> magic_buffer env content
                                  = Inr (file_type (attachments m ! i))))
             else attachments m = [])"
proof (cases "is_attachment_requested (effective_attachments a)")
  case False
  with assms show ?thesis
    by (auto simp: before_send_def new_message_def split: prod.splits option.splits)
next
  case True
  let ?atts = "the (effective_attachments a)"
  let ?m0 = "new_message env a"
  from assms True obtain evs2
    where r: "add_attachments env ?m0 ?atts (effective_dispositions a) = (evs2, m, None)"
    by (auto simp: before_send_def split: prod.splits option.splits)
  from add_attachments_loop [OF r] obtain ds evs' where len: "length ds = length ?atts"
    and l: "attach_loop env ?m0 (zip ?atts ds) = (evs', m, None)"
    by blast
  note rl = run_loop_added [OF l len]
  have m0: "attachments ?m0 = []"
    by (simp add: new_message_def)
  from rl m0 have am: "attachments m = added_attachments ?m0 m"
    by (simp add: added_attachments_def)
  from rl have h: "html_content m = html_content ?m0"
    by (metis mail.select_convs(4) mail.surjective mail.update_convs(5))
  note r = loop_records [OF l len]
  from r(2) am have n: "length (attachments m) = length ?atts"
    by simp
  from h have h': "html_content m = markdown_markdown env (arg_markdown_body a)"
    by (simp add: new_message_def)
  from r(4) [folded am] n h' True show ?thesis
    by simp
qed

section \<open>A count of dispositions that does not fit\<close>

text \<open>
  C1. When more than one disposition is given and their number differs from the number
  of attachment paths, \<open>add_attachments\<close> raises the \<open>ValueError\<close> of the count check: it
  has printed nothing and opened no file by then, and the message is as it was.
\<close>

theorem add_attachments_count_mismatch:
  assumes "1 < length disps" and "length disps \<noteq> length atts"
  shows "add_attachments env message atts disps
         = ([], message, Some (ValueError mismatch_message))"
proof -
  from assms(1) have "disps \<noteq> []" and "length disps \<noteq> 1"
    by auto
  with assms(2) show ?thesis
    by (simp add: add_attachments_def)
qed

theorem add_attachments_count_mismatch_witness:
  "1 < length [INLINE, ATTACHMENT]
   \<and> length [INLINE, ATTACHMENT] \<noteq> length [str ''/tmp/a.txt'', str ''/tmp/b.txt'', str ''/tmp/c.txt'']
   \<and> add_attachments sample_env sample_message
        [str ''/tmp/a.txt'', str ''/tmp/b.txt'', str ''/tmp/c.txt''] [INLINE, ATTACHMENT]
      = ([], sample_message, Some (ValueError mismatch_message))"
  using add_attachments_count_mismatch
    [where disps = "[INLINE, ATTACHMENT]"
       and atts = "[str ''/tmp/a.txt'', str ''/tmp/b.txt'', str ''/tmp/c.txt'']"
       and env = sample_env and message = sample_message]
  by simp

section \<open>How the dispositions are given to the files\<close>

text \<open>
  C2. For a non-empty list of paths and no disposition, every record that
  \<open>add_attachments\<close> adds to the message has the disposition \<open>attachment\<close>. The call ends
  without exception exactly when it has added one record for each path, which it does
  when every file can be read.
\<close>

theorem no_disposition_defaults:
  assumes "atts \<noteq> []"
    and "add_attachments env message atts [] = (evs, message', exc)"
  shows "(\<forall>a \<in> set (added_attachments message message'). disposition a = ATTACHMENT)
         \<and> (exc = None \<longleftrightarrow> length (added_attachments message message') = length atts)
         \<and> ((\<forall>p \<in> set atts. readable env p) \<longrightarrow> exc = None)"
proof -
  let ?ds = "replicate (length atts) ATTACHMENT"
  from assms(2) obtain evs'
    where l: "attach_loop env message (zip atts ?ds) = (evs', message', exc)"
    by (auto simp: add_attachments_unfold split: prod.splits)
  have len: "length ?ds = length atts"
    by simp
  note r = loop_records [OF l len]
  have "disposition a = ATTACHMENT" if "a \<in> set (added_attachments message message')" for a
  proof -
    from that obtain i where i: "i < length (added_attachments message message')"
      and a: "a = added_attachments message message' ! i"
      by (auto simp: in_set_conv_nth)
    from r(4) i a have "disposition a = ?ds ! i"
      by blast
    with i r(1) show ?thesis
      by simp
  qed
  with r(2,3) show ?thesis
    by blast
qed

theorem no_disposition_defaults_witness:
  "[str ''/tmp/a.txt'', str ''/tmp/b.txt''] \<noteq> []
   \<and> map disposition
        (added_attachments sample_message
           (fst (snd (add_attachments sample_env sample_message
                        [str ''/tmp/a.txt'', str ''/tmp/b.txt''] []))))
      = [ATTACHMENT, ATTACHMENT]
   \<and> list_all (\<lambda>a. disposition a = ATTACHMENT)
        (added_attachments sample_message
           (fst (snd (add_attachments sample_env sample_message
                        [str ''/tmp/a.txt'', str ''/tmp/b.txt''] []))))"
proof -
  let ?r = "add_attachments sample_env sample_message [str ''/tmp/a.txt'', str ''/tmp/b.txt''] []"
  have ne: "[str ''/tmp/a.txt'', str ''/tmp/b.txt''] \<noteq> []"
    by simp
  have run: "?r = (fst ?r, fst (snd ?r), snd (snd ?r))"
    by simp
  have val: "map disposition (added_attachments sample_message (fst (snd ?r)))
             = [ATTACHMENT, ATTACHMENT]"
    by (simp add: add_attachments_unfold build_attachment_def magic_from_file_def
        sample_env_def sample_message_def added_attachments_def add_attachment_def
        str_def EMPTY_def Let_def)
  from no_disposition_defaults [OF ne run] ne val show ?thesis
    by (simp add: list_all_iff)
qed

text \<open>
  C3, as stated: for a non-empty list of paths and one disposition value, every added
  record has that value. It fails for the one value that is the unset value: the file of
  the sample host is attached with the disposition \<open>attachment\<close>, not with the empty one.
\<close>

theorem single_unset_value_counterexample:
  "map disposition
     (added_attachments sample_message
        (fst (snd (add_attachments sample_env sample_message [str ''/tmp/a.txt''] [EMPTY]))))
   = [ATTACHMENT]
   \<and> ATTACHMENT \<noteq> EMPTY"
  by (simp add: add_attachments_unfold build_attachment_def magic_from_file_def
      sample_env_def sample_message_def added_attachments_def add_attachment_def
      str_def EMPTY_def ATTACHMENT_def Let_def)

text \<open>
  C3, amended: for a non-empty list of paths and one disposition value other than the
  unset value, every record that \<open>add_attachments\<close> adds has that value.
\<close>

theorem single_disposition_broadcast:
  assumes "atts \<noteq> []" and "d \<noteq> EMPTY"
    and "add_attachments env message atts [d] = (evs, message', exc)"
  shows "(\<forall>a \<in> set (added_attachments message message'). disposition a = d)
         \<and> (exc = None \<longleftrightarrow> length (added_attachments message message') = length atts)
         \<and> ((\<forall>p \<in> set atts. readable env p) \<longrightarrow> exc = None)"
proof -
  let ?ds = "replicate (length atts) d"
  from assms(2,3) obtain evs'
    where l: "attach_loop env message (zip atts ?ds) = (evs', message', exc)"
    by (auto simp: add_attachments_unfold split: prod.splits)
  have len: "length ?ds = length atts"
    by simp
  note r = loop_records [OF l len]
  have "disposition a = d" if "a \<in> set (added_attachments message message')" for a
  proof -
    from that obtain i where i: "i < length (added_attachments message message')"
      and a: "a = added_attachments message message' ! i"
      by (auto simp: in_set_conv_nth)
    from r(4) i a have "disposition a = ?ds ! i"
      by blast
    with i r(1) show ?thesis
      by simp
  qed
  with r(2,3) show ?thesis
    by blast
qed

theorem single_disposition_broadcast_witness:
  "[str ''/tmp/a.txt'', str ''/tmp/b.txt''] \<noteq> [] \<and> INLINE \<noteq> EMPTY
   \<and> map disposition
        (added_attachments sample_message
           (fst (snd (add_attachments sample_env sample_message
                        [str ''/tmp/a.txt'', str ''/tmp/b.txt''] [INLINE]))))
      = [INLINE, INLINE]
   \<and> list_all (\<lambda>a. disposition a = INLINE)
        (added_attachments sample_message
           (fst (snd (add_attachments sample_env sample_message
                        [str ''/tmp/a.txt'', str ''/tmp/b.txt''] [INLINE]))))"
proof -
  let ?r = "add_attachments sample_env sample_message
              [str ''/tmp/a.txt'', str ''/tmp/b.txt''] [INLINE]"
  have ne: "[str ''/tmp/a.txt'', str ''/tmp/b.txt''] \<noteq> []"
    by simp
  have d: "INLINE \<noteq> EMPTY"
    by (simp add: INLINE_def EMPTY_def str_def)
  have run: "?r = (fst ?r, fst (snd ?r), snd (snd ?r))"
    by simp
  have val: "map disposition (added_attachments sample_message (fst (snd ?r)))
             = [INLINE, INLINE]"
    using d
    by (simp add: add_attachments_unfold build_attachment_def magic_from_file_def
        sample_env_def sample_message_def added_attachments_def add_attachment_def
        str_def Let_def)
  from single_disposition_broadcast [OF ne d run] ne d val show ?thesis
    by (simp add: list_all_iff)
qed

text \<open>
  C4. For more than one path and as many dispositions, the record at position \<open>i\<close> among
  the added ones is the one the loop body builds from path \<open>i\<close> and disposition \<open>i\<close>: it
  has disposition \<open>i\<close> and the name of path \<open>i\<close>.
\<close>

theorem dispositions_paired_by_position:
  assumes "length disps = length atts" and "1 < length atts"
    and "add_attachments env message atts disps = (evs, message', exc)"
  shows "(\<forall>i < length (added_attachments message message').
            snd (build_attachment env (atts ! i) (disps ! i))
            = Inr (added_attachments message message' ! i)
            \<and> disposition (added_attachments message message' ! i) = disps ! i
            \<and> file_name (added_attachments message message' ! i) = path_name (atts ! i))
         \<and> (exc = None \<longleftrightarrow> length (added_attachments message message') = length atts)
         \<and> ((\<forall>p \<in> set atts. readable env p) \<longrightarrow> exc = None)"
proof -
  from assms(1,2) have "disps \<noteq> []" "disps \<noteq> [EMPTY]" "length disps \<noteq> 1"
    by auto
  with assms(1,3) obtain evs'
    where l: "attach_loop env message (zip atts disps) = (evs', message', exc)"
    by (auto simp: add_attachments_unfold split: prod.splits)
  note r = loop_records [OF l assms(1)]
  from run_loop_added [OF l assms(1)]
  have b: "\<forall>i < length (added_attachments message message').
             snd (build_attachment env (atts ! i) (disps ! i))
             = Inr (added_attachments message message' ! i)"
    by blast
  from b r(2,3,4) show ?thesis
    by blast
qed

theorem dispositions_paired_by_position_witness:
  "length [INLINE, ATTACHMENT] = length [str ''/tmp/a.txt'', str ''/tmp/b.txt'']
   \<and> 1 < length [str ''/tmp/a.txt'', str ''/tmp/b.txt'']
   \<and> map disposition
        (added_attachments sample_message
           (fst (snd (add_attachments sample_env sample_message
                        [str ''/tmp/a.txt'', str ''/tmp/b.txt''] [INLINE, ATTACHMENT]))))
      = [INLINE, ATTACHMENT]
   \<and> map file_name
        (added_attachments sample_message
           (fst (snd (add_attachments sample_env sample_message
                        [str ''/tmp/a.txt'', str ''/tmp/b.txt''] [INLINE, ATTACHMENT]))))
      = [str ''a.txt'', str ''b.txt'']
   \<and> snd (snd (add_attachments sample_env sample_message
                 [str ''/tmp/a.txt'', str ''/tmp/b.txt''] [INLINE, ATTACHMENT])) = None"
proof -
  let ?atts = "[str ''/tmp/a.txt'', str ''/tmp/b.txt'']"
  let ?r = "add_attachments sample_env sample_message ?atts [INLINE, ATTACHMENT]"
  have len: "length [INLINE, ATTACHMENT] = length ?atts" and two: "1 < length ?atts"
    by simp_all
  have run: "?r = (fst ?r, fst (snd ?r), snd (snd ?r))"
    by simp
  have rd: "\<forall>p \<in> set ?atts. readable sample_env p"
    by (simp add: readable_def sample_env_def str_def)
  have d: "INLINE \<noteq> EMPTY" "length [INLINE, ATTACHMENT] \<noteq> 1"
    by (simp_all add: INLINE_def EMPTY_def str_def)
  have val: "map disposition (added_attachments sample_message (fst (snd ?r)))
             = [INLINE, ATTACHMENT]"
    "map file_name (added_attachments sample_message (fst (snd ?r)))
     = [str ''a.txt'', str ''b.txt'']"
    using d
    by (simp_all add: add_attachments_unfold build_attachment_def magic_from_file_def
        sample_env_def sample_message_def added_attachments_def add_attachment_def
        path_name_def sep_def str_def Let_def)
  from dispositions_paired_by_position [OF len two run] rd have "snd (snd ?r) = None"
    by blast
  with len two val show ?thesis
    by blast
qed

text \<open>
  C5. For a non-empty list of paths, the disposition list that holds the unset value
  alone gives the same events, the same message and the same end as the empty
  disposition list, and every added record has the disposition \<open>attachment\<close>.
\<close>

theorem unset_value_is_no_value:
  assumes "atts \<noteq> []"
    and "add_attachments env message atts [EMPTY] = (evs, message', exc)"
  shows "add_attachments env message atts [] = (evs, message', exc)
         \<and> (\<forall>a \<in> set (added_attachments message message'). disposition a = ATTACHMENT)"
proof -
  have same: "add_attachments env message atts [EMPTY] = add_attachments env message atts []"
    by (simp add: add_attachments_unfold)
  let ?ds = "replicate (length atts) ATTACHMENT"
  from assms(2) obtain evs'
    where l: "attach_loop env message (zip atts ?ds) = (evs', message', exc)"
    by (auto simp: add_attachments_unfold split: prod.splits)
  have len: "length ?ds = length atts"
    by simp
  note r = loop_records [OF l len]
  have "disposition a = ATTACHMENT" if "a \<in> set (added_attachments message message')" for a
  proof -
    from that obtain i where i: "i < length (added_attachments message message')"
      and a: "a = added_attachments message message' ! i"
      by (auto simp: in_set_conv_nth)
    from r(4) i a have "disposition a = ?ds ! i"
      by blast
    with i r(1) show ?thesis
      by simp
  qed
  with same assms(2) show ?thesis
    by simp
qed

theorem unset_value_is_no_value_witness:
  "[str ''/tmp/a.txt'', str ''/tmp/b.txt''] \<noteq> []
   \<and> add_attachments sample_env sample_message [str ''/tmp/a.txt'', str ''/tmp/b.txt''] []
     = add_attachments sample_env sample_message [str ''/tmp/a.txt'', str ''/tmp/b.txt''] [EMPTY]
   \<and> map disposition
        (added_attachments sample_message
           (fst (snd (add_attachments sample_env sample_message
                        [str ''/tmp/a.txt'', str ''/tmp/b.txt''] [EMPTY]))))
      = [ATTACHMENT, ATTACHMENT]"
proof -
  let ?atts = "[str ''/tmp/a.txt'', str ''/tmp/b.txt'']"
  let ?r = "add_attachments sample_env sample_message ?atts [EMPTY]"
  have ne: "?atts \<noteq> []"
    by simp
  have run: "?r = (fst ?r, fst (snd ?r), snd (snd ?r))"
    by simp
  have val: "map disposition (added_attachments sample_message (fst (snd ?r)))
             = [ATTACHMENT, ATTACHMENT]"
    by (simp add: add_attachments_unfold build_attachment_def magic_from_file_def
        sample_env_def sample_message_def added_attachments_def add_attachment_def
        str_def Let_def)
  from unset_value_is_no_value [OF ne run] ne val show ?thesis
    by simp
qed

section \<open>The attachment records\<close>



section \<open>The line feed rule of the two options\<close>




section \<open>The delivery\<close>

text \<open>
  C7. In every run that calls \<open>send\<close>, the call is the only one of the run. When it
  raises, what follows it is the message of the exception and a line feed on the error
  stream, and the run ends with exit code 1; when it returns a response, what follows it
  is the print of the status code, of the body and of the headers, and the run ends with
  exit code 0.
\<close>

theorem send_once_and_report:
  assumes "Send k m \<in> set (trace (main env a))"
  shows "length (filter is_send (trace (main env a))) = 1
         \<and> (case sg_send env k m of
               Inl exp \<Rightarrow>
                 from_send (trace (main env a))
                 = [Send k m, WriteErr (exception_str exp @ [newline])]
                 \<and> outcome (main env a) = Exit 1
             | Inr resp \<Rightarrow>
                 from_send (trace (main env a))
                 = [Send k m, Print (PInt (status_code resp)), Print (PBytes (body resp)),
                    Print (PHeaders (headers resp))]
                 \<and> outcome (main env a) = Exit 0)"
proof -
  from main_sends [OF assms] obtain evs
    where ns: "\<forall>e \<in> set evs. \<not> is_send e"
      and t: "trace (main env a) = evs @ fst (deliver env k m)"
      and o: "outcome (main env a) = snd (deliver env k m)"
    by blast
  from ns have "filter is_send evs = []"
    by (simp add: filter_empty_conv)
  with t have one: "length (filter is_send (trace (main env a))) = 1"
    by (simp add: deliver_one_send)
  from ns t have "from_send (trace (main env a)) = from_send (fst (deliver env k m))"
    by (simp add: from_send_def dropWhile_append2)
  then have f: "from_send (trace (main env a)) = fst (deliver env k m)"
    by (simp add: deliver_one_send)
  from one f o show ?thesis
    by (simp add: deliver_events split: sum.splits)
qed

theorem send_once_and_report_witness:
  "Send (str ''bad'') (new_message sample_env sample_args)
     \<in> set (trace (main sample_env (sample_args\<lparr>arg_api_key := str ''bad''\<rparr>)))
   \<and> sg_send sample_env (str ''bad'') (new_message sample_env sample_args)
     = Inl (Exception (str ''HTTP Error 401: Unauthorized''))
   \<and> length (filter is_send (trace (main sample_env (sample_args\<lparr>arg_api_key := str ''bad''\<rparr>))))
     = 1
   \<and> from_send (trace (main sample_env (sample_args\<lparr>arg_api_key := str ''bad''\<rparr>)))
     = [Send (str ''bad'') (new_message sample_env sample_args),
        WriteErr (str ''HTTP Error 401: Unauthorized'' @ [newline])]
   \<and> outcome (main sample_env (sample_args\<lparr>arg_api_key := str ''bad''\<rparr>)) = Exit 1
   \<and> Send (str ''good'') (new_message sample_env sample_args)
     \<in> set (trace (main sample_env sample_args))
   \<and> from_send (trace (main sample_env sample_args))
     = [Send (str ''good'') (new_message sample_env sample_args),
        Print (PInt 202), Print (PBytes []), Print (PHeaders [])]
   \<and> outcome (main sample_env sample_args) = Exit 0"
proof -
  let ?bad = "sample_args\<lparr>arg_api_key := str ''bad''\<rparr>"
  let ?m = "new_message sample_env sample_args"
  have sent_bad: "Send (str ''bad'') ?m \<in> set (trace (main sample_env ?bad))"
    by (simp add: main_def listings_def deliver_def sample_env_def sample_args_def
        effective_attachments_def is_attachment_requested_def print_lines_def
        new_message_def Let_def)
  have sent_good: "Send (str ''good'') ?m \<in> set (trace (main sample_env sample_args))"
    by (simp add: main_def listings_def deliver_def sample_env_def sample_args_def
        effective_attachments_def is_attachment_requested_def print_lines_def
        new_message_def Let_def)
  have rej: "sg_send sample_env (str ''bad'') ?m
             = Inl (Exception (str ''HTTP Error 401: Unauthorized''))"
    by (simp add: sample_env_def str_def)
  have acc: "sg_send sample_env (str ''good'') ?m
             = Inr \<lparr>status_code = 202, body = [], headers = []\<rparr>"
    by (simp add: sample_env_def)
  from send_once_and_report [OF sent_bad] send_once_and_report [OF sent_good]
    sent_bad sent_good rej acc
  show ?thesis
    by simp
qed

section \<open>Order of assembly and delivery\<close>

text \<open>
  C8. In every run, a message that is sent holds the rendered body and, when attachments
  were requested, the complete record of every path, each with the encoded content of
  its file; no file is opened or typed from the send on. A run that ends by an uncaught
  exception has sent nothing; the exception of \<open>add_attachments\<close> (the count check, a file
  that cannot be read) ends the run in this way.
\<close>

theorem assembled_before_send:
  "(Send k m \<in> set (trace (main env a)) \<longrightarrow>
      html_content m = markdown_markdown env (arg_markdown_body a)
      \<and> (if is_attachment_requested (effective_attachments a)
          then length (attachments m) = length (the (effective_attachments a))
               \<and> (\<forall>i < length (attachments m).
                     file_name (attachments m ! i)
                     = path_name (the (effective_attachments a) ! i)
                     \<and> (case open_read env (the (effective_attachments a) ! i) of
                           Inl e \<Rightarrow> False
                         | Inr content \<Rightarrow>
                             file_content (attachments m ! i) = b64encode content
                             \<and> magic_buffer env content
                               = Inr (file_type (attachments m ! i))))
          else attachments m = [])
      \<and> \<not> list_ex is_file_event (from_send (trace (main env a))))
   \<and> (outcome (main env a) = Uncaught e \<longrightarrow> \<not> list_ex is_send (trace (main env a)))
   \<and> (snd (listings env) = None \<and> is_attachment_requested (effective_attachments a)
        \<and> snd (snd (add_attachments env (new_message env a) (the (effective_attachments a))
                      (effective_dispositions a))) = Some e
      \<longrightarrow> outcome (main env a) = Uncaught e)"
proof (intro conjI impI)
  assume sent: "Send k m \<in> set (trace (main env a))"
  from main_sends [OF sent] obtain evs
    where b: "before_send env a = (evs, m, None)"
      and ns: "\<forall>e \<in> set evs. \<not> is_send e"
      and t: "trace (main env a) = evs @ fst (deliver env k m)"
    by blast
  note msg = before_send_message [OF b]
  from msg show "html_content m = markdown_markdown env (arg_markdown_body a)"
    by blast
  from msg show "if is_attachment_requested (effective_attachments a)
          then length (attachments m) = length (the (effective_attachments a))
               \<and> (\<forall>i < length (attachments m).
                     file_name (attachments m ! i)
                     = path_name (the (effective_attachments a) ! i)
                     \<and> (case open_read env (the (effective_attachments a) ! i) of
                           Inl e \<Rightarrow> False
                         | Inr content \<Rightarrow>
                             file_content (attachments m ! i) = b64encode content
                             \<and> magic_buffer env content
                               = Inr (file_type (attachments m ! i))))
          else attachments m = []"
    by blast
  from ns t have "from_send (trace (main env a)) = from_send (fst (deliver env k m))"
    by (simp add: from_send_def dropWhile_append2)
  then show "\<not> list_ex is_file_event (from_send (trace (main env a)))"
    by (simp add: deliver_one_send)
next
  assume "outcome (main env a) = Uncaught e"
  from main_uncaught [OF this] obtain evs message
    where b: "before_send env a = (evs, message, Some e)" and t: "trace (main env a) = evs"
    by blast
  from before_send_no_send [OF b] t show "\<not> list_ex is_send (trace (main env a))"
    by (simp add: list_ex_iff)
next
  assume "snd (listings env) = None \<and> is_attachment_requested (effective_attachments a)
        \<and> snd (snd (add_attachments env (new_message env a) (the (effective_attachments a))
                      (effective_dispositions a))) = Some e"
  then show "outcome (main env a) = Uncaught e"
    by (auto simp: main_before_send before_send_def split: prod.splits option.splits)
qed

theorem assembled_before_send_witness:
  "snd (listings sample_env) = None
   \<and> is_attachment_requested
       (effective_attachments
          (sample_args\<lparr>arg_attachments := Some [str ''/tmp/a.txt''],
                       arg_attachments_disposition := [INLINE, ATTACHMENT]\<rparr>))
   \<and> outcome (main sample_env
                (sample_args\<lparr>arg_attachments := Some [str ''/tmp/a.txt''],
                             arg_attachments_disposition := [INLINE, ATTACHMENT]\<rparr>))
     = Uncaught (ValueError mismatch_message)
   \<and> \<not> list_ex is_send
         (trace (main sample_env
                   (sample_args\<lparr>arg_attachments := Some [str ''/tmp/a.txt''],
                                arg_attachments_disposition := [INLINE, ATTACHMENT]\<rparr>)))
   \<and> Send (str ''good'')
        (new_message sample_env sample_args
           \<lparr>attachments :=
              [\<lparr>file_content = str ''SGk='', file_name = str ''a.txt'',
                file_type = str ''text/plain'', disposition = ATTACHMENT,
                content_id = str ''a.txt''\<rparr>]\<rparr>)
     \<in> set (trace (main sample_env (sample_args\<lparr>arg_attachments := Some [str ''/tmp/a.txt'']\<rparr>)))
   \<and> \<not> list_ex is_file_event
         (from_send
            (trace (main sample_env (sample_args\<lparr>arg_attachments := Some [str ''/tmp/a.txt'']\<rparr>))))"
proof -
  let ?bad = "sample_args\<lparr>arg_attachments := Some [str ''/tmp/a.txt''],
                          arg_attachments_disposition := [INLINE, ATTACHMENT]\<rparr>"
  let ?ok = "sample_args\<lparr>arg_attachments := Some [str ''/tmp/a.txt'']\<rparr>"
  let ?a = "\<lparr>file_content = str ''SGk='', file_name = str ''a.txt'',
             file_type = str ''text/plain'', disposition = ATTACHMENT,
             content_id = str ''a.txt''\<rparr>"
  let ?m = "new_message sample_env sample_args\<lparr>attachments := [?a]\<rparr>"
  have l: "listings sample_env = ([Print (PStr (str ''/''))], None)"
    by (simp add: listings_def sample_env_def print_lines_def)
  have nl: "newline \<notin> set (str ''/tmp/a.txt'')"
    by (simp add: newline_def str_def)
  have eff_bad: "effective_attachments ?bad = Some [str ''/tmp/a.txt'']"
    and eff_ok: "effective_attachments ?ok = Some [str ''/tmp/a.txt'']"
    using nl by (simp_all add: effective_attachments_def split_single_value_def)
  have req: "is_attachment_requested (Some [str ''/tmp/a.txt''])"
    by (simp add: is_attachment_requested_def str_def)
  have disp_bad: "effective_dispositions ?bad = [INLINE, ATTACHMENT]"
    by (simp add: effective_dispositions_def split_single_value_def)
  have nla: "newline \<notin> set ATTACHMENT"
    by (simp add: newline_def ATTACHMENT_def str_def)
  have disp_ok: "effective_dispositions ?ok = [ATTACHMENT]"
    using nla by (simp add: effective_dispositions_def split_single_value_def sample_args_def)
  have fail: "add_attachments sample_env (new_message sample_env ?bad) [str ''/tmp/a.txt'']
                [INLINE, ATTACHMENT]
              = ([], new_message sample_env ?bad, Some (ValueError mismatch_message))"
    by (simp add: add_attachments_unfold)
  have enc: "b64encode [72, 105] = str ''SGk=''"
    by (simp add: b64_char_def b64_alphabet_def b64_pad_def str_def)
  have name: "path_name (str ''/tmp/a.txt'') = str ''a.txt''"
    by (simp add: path_name_def str_def sep_def)
  have d: "ATTACHMENT \<noteq> EMPTY"
    by (simp add: ATTACHMENT_def EMPTY_def str_def)
  have nm: "new_message sample_env ?ok = new_message sample_env sample_args"
    by (simp add: new_message_def)
  have good: "add_attachments sample_env (new_message sample_env sample_args)
                [str ''/tmp/a.txt''] [ATTACHMENT]
              = (search_events sample_env
                 @ [OpenFile (str ''/tmp/a.txt''), MagicFile (str ''/tmp/a.txt'')], ?m, None)"
    using d enc name
    by (simp add: add_attachments_unfold build_attachment_def magic_from_file_def
        sample_env_def add_attachment_def new_message_def Let_def)
  have key: "arg_api_key ?ok = str ''good''"
    by (simp add: sample_args_def)
  have sent: "Send (str ''good'') ?m \<in> set (trace (main sample_env ?ok))"
    using req by (simp add: main_def l eff_ok disp_ok nm good key deliver_def Let_def
        split: sum.splits)
  have pre: "snd (listings sample_env) = None
             \<and> is_attachment_requested (effective_attachments ?bad)
             \<and> snd (snd (add_attachments sample_env (new_message sample_env ?bad)
                            (the (effective_attachments ?bad)) (effective_dispositions ?bad)))
               = Some (ValueError mismatch_message)"
    using req by (simp add: l eff_bad disp_bad fail)
  note bad = assembled_before_send
    [where env = sample_env and a = ?bad and e = "ValueError mismatch_message"
       and k = "str ''good''" and m = ?m]
  note ok = assembled_before_send
    [where env = sample_env and a = ?ok and e = "ValueError mismatch_message"
       and k = "str ''good''" and m = ?m]
  from bad pre have crash: "outcome (main sample_env ?bad) = Uncaught (ValueError mismatch_message)"
    by blast
  with bad have quiet: "\<not> list_ex is_send (trace (main sample_env ?bad))"
    by blast
  from ok sent
  have order: "\<not> list_ex is_file_event (from_send (trace (main sample_env ?ok)))"
    by blast
  from pre crash quiet sent order show ?thesis
    by blast
qed

section \<open>No attachment requested\<close>



end
